theory Spec2Isabelle
  imports
    Complex_Main
    "HOL-Library.Char_ord"
    "HOL-Library.List_Lexorder"
    "HOL-Library.Multiset"
begin

section \<open>The lead query pipeline of \<^verbatim>\<open>src/hooks/useLeads.ts\<close>\<close>

text \<open>
  The hook \<^verbatim>\<open>useLeads\<close> keeps the query state (search text, selected sources and
  tags, sort field and direction, view mode, current page) and derives from it and the
  lead collection three sequences: \<^verbatim>\<open>filteredLeads\<close>, \<^verbatim>\<open>sortedLeads\<close> and
  \<^verbatim>\<open>paginatedLeads\<close>. The state is a record, every action a function from state to
  state, every derived value a function of the state.

  Strings are lists of 8-bit characters, each read as one UTF-16 code unit below 256;
  \<^verbatim>\<open>number\<close> values that the pipeline uses (score, timestamps, page numbers) are
  integers.
\<close>

subsection \<open>Data model (\<^verbatim>\<open>types/lead\<close>)\<close>

datatype LeadSource = WebForm | LandingPage | Sms | Email | Manual

datatype LeadStatus = New | Contacted | Qualified | Booked | Paid

text \<open>
  At run time a source is the string of its literal type; \<^verbatim>\<open>selectedSources\<close> is a
  \<^verbatim>\<open>string[]\<close> and is compared with it as a string.
\<close>

fun source_string :: "LeadSource \<Rightarrow> string" where
  "source_string WebForm = ''web_form''"
| "source_string LandingPage = ''landing_page''"
| "source_string Sms = ''sms''"
| "source_string Email = ''email''"
| "source_string Manual = ''manual''"

record Lead =
  lead_id :: string
  name :: string
  email :: string
  phone :: string
  company :: string
  source :: LeadSource
  status :: LeadStatus
  score :: int
  tags :: "string list"
  createdAt :: int  \<comment> \<open>the value of \<^verbatim>\<open>createdAt.getTime()\<close>\<close>
  updatedAt :: int
  lead_notes :: "string option"  \<comment> \<open>the optional \<^verbatim>\<open>notes\<close>\<close>

datatype SortField = Name | CreatedAt | Score

datatype SortDirection = Asc | Desc

datatype ViewMode = Table | Card

definition ITEMS_PER_PAGE :: int where
  "ITEMS_PER_PAGE = 10"

text \<open>The \<^verbatim>\<open>useState\<close> cells of the hook, together with its \<^verbatim>\<open>initialLeads\<close> argument.\<close>

record LeadsState =
  initialLeads :: "Lead list"
  searchQuery :: string
  selectedSources :: "string list"
  selectedTags :: "string list"
  sortField :: SortField
  sortDirection :: SortDirection
  viewMode :: ViewMode
  currentPage :: int

subsection \<open>String primitives of the run time\<close>

text \<open>
  \<^verbatim>\<open>String.prototype.toLowerCase\<close> on code units below 256: the letters A to Z and the
  Latin-1 capitals (0xC0 to 0xDE, without the multiplication sign 0xD7) move up by 32,
  every other code unit stays.
\<close>

definition lower_char :: "char \<Rightarrow> char" where
  "lower_char c =
     (let n = (of_char c :: nat)
      in if (65 \<le> n \<and> n \<le> 90) \<or> (192 \<le> n \<and> n \<le> 222 \<and> n \<noteq> 215)
         then char_of (n + 32) else c)"

definition toLowerCase :: "string \<Rightarrow> string" where
  "toLowerCase s = map lower_char s"

text \<open>
  \<^verbatim>\<open>String.prototype.includes\<close>: does the needle occur at some position of the
  haystack? \<open>starts_with\<close> tries one position, \<open>includes_str\<close> every position from
  left to right.
\<close>

fun starts_with :: "'a list \<Rightarrow> 'a list \<Rightarrow> bool" where
  "starts_with hay [] = True"
| "starts_with [] (n # ns) = False"
| "starts_with (h # hs) (n # ns) = (h = n \<and> starts_with hs ns)"

fun includes_str :: "'a list \<Rightarrow> 'a list \<Rightarrow> bool" where
  "includes_str [] needle = starts_with [] needle"
| "includes_str (h # hs) needle = (starts_with (h # hs) needle \<or> includes_str hs needle)"

text \<open>\<^verbatim>\<open>Array.prototype.includes\<close> on strings, and \<^verbatim>\<open>Array.prototype.some\<close>.\<close>

fun includes_arr :: "'a list \<Rightarrow> 'a \<Rightarrow> bool" where
  "includes_arr [] x = False"
| "includes_arr (y # ys) x = (y = x \<or> includes_arr ys x)"

fun some :: "'a list \<Rightarrow> ('a \<Rightarrow> bool) \<Rightarrow> bool" where
  "some [] p = False"
| "some (x # xs) p = (p x \<or> some xs p)"

subsection \<open>Filtering\<close>

text \<open>
  The test \<^verbatim>\<open>matchesSearch\<close> of the filter callback; \<open>query\<close> is the lowercased
  search text. Name, email and company are lowercased before the test, the phone is not.
\<close>

definition matchesSearch :: "Lead \<Rightarrow> string \<Rightarrow> bool" where
  "matchesSearch lead query =
     (includes_str (toLowerCase (name lead)) query \<or>
      includes_str (toLowerCase (email lead)) query \<or>
      includes_str (toLowerCase (company lead)) query \<or>
      includes_str (phone lead) query)"

text \<open>
  The callback given to \<^verbatim>\<open>initialLeads.filter\<close>, with its three early returns. A
  non-empty string is truthy.
\<close>

definition keepLead :: "LeadsState \<Rightarrow> Lead \<Rightarrow> bool" where
  "keepLead s lead =
     (if searchQuery s \<noteq> [] \<and> \<not> matchesSearch lead (toLowerCase (searchQuery s))
      then False
      else if length (selectedSources s) > 0 \<and>
              \<not> includes_arr (selectedSources s) (source_string (source lead))
      then False
      else if length (selectedTags s) > 0 \<and>
              \<not> some (selectedTags s) (\<lambda>tag. includes_arr (tags lead) tag)
      then False
      else True)"

definition filteredLeads :: "LeadsState \<Rightarrow> Lead list" where
  "filteredLeads s = filter (keepLead s) (initialLeads s)"

subsection \<open>Sorting\<close>

text \<open>
  The callback compares \<^verbatim>\<open>aVal\<close> and \<^verbatim>\<open>bVal\<close> of type \<^verbatim>\<open>string | number\<close>. Both
  values of a call come from the same arm of the \<^verbatim>\<open>switch\<close>; \<^verbatim>\<open><\<close> on two strings
  is the lexicographic order of their code units, on two numbers the numeric order. The
  \<^verbatim>\<open>default\<close> arm has no field left to serve: \<open>SortField\<close> has the three values of the
  other arms.
\<close>

datatype SortValue = Str string | Num int

fun sortValue :: "SortField \<Rightarrow> Lead \<Rightarrow> SortValue" where
  "sortValue Name a = Str (toLowerCase (name a))"
| "sortValue Score a = Num (score a)"
| "sortValue CreatedAt a = Num (createdAt a)"

fun value_less :: "SortValue \<Rightarrow> SortValue \<Rightarrow> bool" where
  "value_less (Str x) (Str y) = (x < y)"
| "value_less (Num x) (Num y) = (x < y)"
| "value_less _ _ = False"

definition compareLeads :: "SortField \<Rightarrow> SortDirection \<Rightarrow> Lead \<Rightarrow> Lead \<Rightarrow> int" where
  "compareLeads field direction a b =
     (let aVal = sortValue field a; bVal = sortValue field b
      in if value_less aVal bVal then (if direction = Asc then - 1 else 1)
         else if value_less bVal aVal then (if direction = Asc then 1 else - 1)
         else 0)"

text \<open>
  \<^verbatim>\<open>Array.prototype.sort\<close> belongs to the run time. ECMAScript (since the 2019
  edition) requires it to be stable, and for a consistent comparator that fixes its
  result: the elements in comparator order, equal ones in their order of arrival. The
  model is insertion from the right, where an element goes in front of the first element
  it does not exceed.
\<close>

fun insert_by :: "('a \<Rightarrow> 'a \<Rightarrow> int) \<Rightarrow> 'a \<Rightarrow> 'a list \<Rightarrow> 'a list" where
  "insert_by cmp x [] = [x]"
| "insert_by cmp x (y # ys) =
     (if cmp x y \<le> 0 then x # y # ys else y # insert_by cmp x ys)"

fun array_sort :: "('a \<Rightarrow> 'a \<Rightarrow> int) \<Rightarrow> 'a list \<Rightarrow> 'a list" where
  "array_sort cmp [] = []"
| "array_sort cmp (x # xs) = insert_by cmp x (array_sort cmp xs)"

definition sortedLeads :: "LeadsState \<Rightarrow> Lead list" where
  "sortedLeads s =
     array_sort (compareLeads (sortField s) (sortDirection s)) (filteredLeads s)"

subsection \<open>Pagination\<close>

text \<open>
  \<^verbatim>\<open>Array.prototype.slice(start, end)\<close> on integers: a negative index counts from the
  end, both indices are clamped to the array, and an empty range gives the empty array.
\<close>

definition slice :: "'a list \<Rightarrow> int \<Rightarrow> int \<Rightarrow> 'a list" where
  "slice xs start end =
     (let len = int (length xs);
          k = (if start < 0 then max (len + start) 0 else min start len);
          final = (if end < 0 then max (len + end) 0 else min end len)
      in take (nat (max (final - k) 0)) (drop (nat k) xs))"

definition paginatedLeads :: "LeadsState \<Rightarrow> Lead list" where
  "paginatedLeads s =
     (let startIndex = (currentPage s - 1) * ITEMS_PER_PAGE;
          endIndex = startIndex + ITEMS_PER_PAGE
      in slice (sortedLeads s) startIndex endIndex)"

text \<open>
  \<^verbatim>\<open>Math.ceil(sortedLeads.length / ITEMS_PER_PAGE)\<close>. The quotient of the source is a
  double; for an array length it is exact or lies strictly between two integers, so its
  ceiling is the ceiling of the real quotient.
\<close>

definition totalPages :: "LeadsState \<Rightarrow> int" where
  "totalPages s = \<lceil>real (length (sortedLeads s)) / real_of_int ITEMS_PER_PAGE\<rceil>"

subsection \<open>Actions\<close>

text \<open>
  Each action is the state after the \<^verbatim>\<open>set...\<close> calls of its body have been applied;
  an updater function \<^verbatim>\<open>prev => ...\<close> reads the cell it updates.
\<close>

definition useLeads :: "Lead list \<Rightarrow> LeadsState" where
  "useLeads leads =
     \<lparr> initialLeads = leads, searchQuery = [], selectedSources = [], selectedTags = [],
       sortField = CreatedAt, sortDirection = Desc, viewMode = Table, currentPage = 1 \<rparr>"

definition toggle :: "string list \<Rightarrow> string \<Rightarrow> string list" where
  "toggle prev x =
     (if includes_arr prev x then filter (\<lambda>s. s \<noteq> x) prev else prev @ [x])"

definition toggleSource :: "string \<Rightarrow> LeadsState \<Rightarrow> LeadsState" where
  "toggleSource src s =
     s\<lparr> selectedSources := toggle (selectedSources s) src, currentPage := 1 \<rparr>"

definition toggleTag :: "string \<Rightarrow> LeadsState \<Rightarrow> LeadsState" where
  "toggleTag tag s =
     s\<lparr> selectedTags := toggle (selectedTags s) tag, currentPage := 1 \<rparr>"

definition handleSetSearchQuery :: "string \<Rightarrow> LeadsState \<Rightarrow> LeadsState" where
  "handleSetSearchQuery query s = s\<lparr> searchQuery := query, currentPage := 1 \<rparr>"

text \<open>
  \<^verbatim>\<open>handleSetSortField\<close> is rebuilt by \<^verbatim>\<open>useCallback\<close> when \<^verbatim>\<open>sortField\<close> changes, so
  its test reads the \<^verbatim>\<open>sortField\<close> of the render that built it (\<open>rendered\<close>), not
  the cell; the direction is flipped by an updater, which reads the cell. The state \<open>s\<close>
  is the one the call finds: the state of that render, or the state left by earlier calls
  of the same event.
\<close>

definition handleSetSortField :: "SortField \<Rightarrow> SortField \<Rightarrow> LeadsState \<Rightarrow> LeadsState" where
  "handleSetSortField rendered field s =
     (if rendered = field
      then s\<lparr> sortDirection := (if sortDirection s = Asc then Desc else Asc) \<rparr>
      else s\<lparr> sortField := field, sortDirection := Desc \<rparr>)"

text \<open>
  The action \<^verbatim>\<open>setSortField\<close> of the hook's result, called on the state it was
  rendered from: the first or only call of an event.
\<close>

definition setSortField :: "SortField \<Rightarrow> LeadsState \<Rightarrow> LeadsState" where
  "setSortField field s = handleSetSortField (sortField s) field s"

definition setSortDirection :: "SortDirection \<Rightarrow> LeadsState \<Rightarrow> LeadsState" where
  "setSortDirection direction s = s\<lparr> sortDirection := direction \<rparr>"

definition setViewMode :: "ViewMode \<Rightarrow> LeadsState \<Rightarrow> LeadsState" where
  "setViewMode mode s = s\<lparr> viewMode := mode \<rparr>"

definition setCurrentPage :: "int \<Rightarrow> LeadsState \<Rightarrow> LeadsState" where
  "setCurrentPage page s = s\<lparr> currentPage := page \<rparr>"

definition clearFilters :: "LeadsState \<Rightarrow> LeadsState" where
  "clearFilters s =
     s\<lparr> searchQuery := [], selectedSources := [], selectedTags := [], currentPage := 1 \<rparr>"

definition resetPagination :: "LeadsState \<Rightarrow> LeadsState" where
  "resetPagination s = s\<lparr> currentPage := 1 \<rparr>"

subsection \<open>The claims as the specification words them\<close>

text \<open>
  Substring containment as the specification means it: the needle occurs somewhere in the
  haystack. It is what \<open>includes_str\<close> computes (\<open>is_substring_code\<close> below).
\<close>

definition is_substring :: "'a list \<Rightarrow> 'a list \<Rightarrow> bool" where
  "is_substring needle hay \<longleftrightarrow> (\<exists>ps ss. hay = ps @ needle @ ss)"

text \<open>
  The filter predicate in the specification's words, with the search text compared with
  the phone as typed (no case transformation on either side).
\<close>

definition passes_as_stated :: "LeadsState \<Rightarrow> Lead \<Rightarrow> bool" where
  "passes_as_stated s l \<longleftrightarrow>
     (searchQuery s = [] \<or>
      is_substring (toLowerCase (searchQuery s)) (toLowerCase (name l)) \<or>
      is_substring (toLowerCase (searchQuery s)) (toLowerCase (email l)) \<or>
      is_substring (toLowerCase (searchQuery s)) (toLowerCase (company l)) \<or>
      is_substring (searchQuery s) (phone l)) \<and>
     (selectedSources s = [] \<or> source_string (source l) \<in> set (selectedSources s)) \<and>
     (selectedTags s = [] \<or> (\<exists>t\<in>set (selectedTags s). t \<in> set (tags l)))"

text \<open>
  The same predicate with the one change the code forces: the phone is searched for the
  lowercased search text, as the other three fields are.
\<close>

definition passes_filter :: "LeadsState \<Rightarrow> Lead \<Rightarrow> bool" where
  "passes_filter s l \<longleftrightarrow>
     (searchQuery s = [] \<or>
      is_substring (toLowerCase (searchQuery s)) (toLowerCase (name l)) \<or>
      is_substring (toLowerCase (searchQuery s)) (toLowerCase (email l)) \<or>
      is_substring (toLowerCase (searchQuery s)) (toLowerCase (company l)) \<or>
      is_substring (toLowerCase (searchQuery s)) (phone l)) \<and>
     (selectedSources s = [] \<or> source_string (source l) \<in> set (selectedSources s)) \<and>
     (selectedTags s = [] \<or> (\<exists>t\<in>set (selectedTags s). t \<in> set (tags l)))"

subsection \<open>Sample leads\<close>

definition lead_sarah :: Lead where
  "lead_sarah =
     \<lparr> lead_id = ''lead-1'', name = ''Sarah Johnson'', email = ''sarah@globex.com'',
       phone = ''(555) 123-4567'', company = ''Globex'', source = WebForm,
       status = Contacted, score = 90, tags = [''enterprise'', ''urgent''],
       createdAt = 1700000100000, updatedAt = 1700000100000, lead_notes = None \<rparr>"

definition lead_bob :: Lead where
  "lead_bob =
     \<lparr> lead_id = ''lead-2'', name = ''Bob Stone'', email = ''bob@acme.io'',
       phone = ''555-0100 x12'', company = ''Acme'', source = Sms, status = New,
       score = 50, tags = [''smb''], createdAt = 1700000000000,
       updatedAt = 1700000000000, lead_notes = None \<rparr>"

definition lead_amy :: Lead where
  "lead_amy =
     \<lparr> lead_id = ''lead-3'', name = ''Amy Wong'', email = ''amy@initech.com'',
       phone = ''555 EXT 9'', company = ''Initech'', source = Email, status = Qualified,
       score = 90, tags = [], createdAt = 1700000200000,
       updatedAt = 1700000200000, lead_notes = Some ''call back'' \<rparr>"

text \<open>
  A collection of any size: lead \<open>i\<close> was created at instant \<open>i\<close>, and the scores repeat
  with period 7.
\<close>

definition numbered_lead :: "nat \<Rightarrow> Lead" where
  "numbered_lead i =
     lead_bob\<lparr> lead_id := replicate (Suc i) CHR ''n'', score := int (i mod 7),
               createdAt := int i \<rparr>"

definition numbered_leads :: "nat \<Rightarrow> Lead list" where
  "numbered_leads n = map numbered_lead [0..<n]"

section \<open>Properties\<close>

subsection \<open>The run-time primitives compute what their names say\<close>

lemma starts_with_iff: "starts_with hay needle \<longleftrightarrow> (\<exists>ss. hay = needle @ ss)"
  by (induction hay needle rule: starts_with.induct) auto

lemma includes_str_iff:
  "includes_str hay needle \<longleftrightarrow> (\<exists>ps ss. hay = ps @ needle @ ss)"
proof (induction hay)
  case Nil
  show ?case by (cases needle) auto
next
  case (Cons h hs)
  have "(\<exists>ps ss. h # hs = ps @ needle @ ss) \<longleftrightarrow>
        (\<exists>ss. h # hs = needle @ ss) \<or> (\<exists>ps ss. hs = ps @ needle @ ss)"
  proof
    assume "\<exists>ps ss. h # hs = ps @ needle @ ss"
    then obtain ps ss where eq: "h # hs = ps @ needle @ ss" by blast
    show "(\<exists>ss. h # hs = needle @ ss) \<or> (\<exists>ps ss. hs = ps @ needle @ ss)"
    proof (cases ps)
      case Nil
      with eq show ?thesis by auto
    next
      case (Cons p ps')
      with eq have "hs = ps' @ needle @ ss" by simp
      then show ?thesis by blast
    qed
  next
    assume "(\<exists>ss. h # hs = needle @ ss) \<or> (\<exists>ps ss. hs = ps @ needle @ ss)"
    then show "\<exists>ps ss. h # hs = ps @ needle @ ss"
    proof
      assume "\<exists>ss. h # hs = needle @ ss"
      then obtain ss where "h # hs = [] @ needle @ ss" by auto
      then show ?thesis by blast
    next
      assume "\<exists>ps ss. hs = ps @ needle @ ss"
      then obtain ps ss where "h # hs = (h # ps) @ needle @ ss" by auto
      then show ?thesis by blast
    qed
  qed
  with Cons show ?case by (simp add: starts_with_iff)
qed

lemma is_substring_code [code]: "is_substring needle hay = includes_str hay needle"
  by (simp add: is_substring_def includes_str_iff)

lemma includes_arr_iff: "includes_arr xs x \<longleftrightarrow> x \<in> set xs"
  by (induction xs) auto

lemma some_iff: "some xs p \<longleftrightarrow> (\<exists>x\<in>set xs. p x)"
  by (induction xs) auto

lemma keepLead_iff: "keepLead s l \<longleftrightarrow> passes_filter s l"
  by (auto simp: keepLead_def passes_filter_def matchesSearch_def is_substring_code
      includes_arr_iff some_iff)

subsection \<open>Filtering\<close>

text \<open>
  C1 (as amended). For every filter state and every lead collection whose phones hold no
  upper-case letter, \<open>filteredLeads\<close> is the input sequence restricted, in its order, to
  the leads that pass all three dimensions: the search text is empty or, lowercased, is a
  substring of the lowercased name, email or company or of the phone; no source is
  selected or the lead's source is selected; no tag is selected or the lead has one of
  the selected tags. What the search finds in a phone with upper-case letters is left
  open here.
\<close>

theorem filteredLeads_is_filter:
  assumes "\<forall>x\<in>set (initialLeads s). toLowerCase (phone x) = phone x"
  shows "filteredLeads s = filter (passes_filter s) (initialLeads s) \<and>
   (l \<in> set (filteredLeads s) \<longleftrightarrow> l \<in> set (initialLeads s) \<and> passes_filter s l)"
proof -
  have "filter (keepLead s) (initialLeads s) = filter (passes_filter s) (initialLeads s)"
    by (rule filter_cong [OF refl]) (simp add: keepLead_iff)
  then show ?thesis
    by (simp add: filteredLeads_def)
qed

text \<open>
  Sarah's and Bob's phones, \<open>(555) 123-4567\<close> and \<open>555-0100 x12\<close>, hold no upper-case
  letter; the search for \<open>X12\<close> keeps Bob alone.
\<close>

theorem filteredLeads_is_filter_witness:
  "initialLeads (handleSetSearchQuery ''X12'' (useLeads [lead_sarah, lead_bob]))
     = [lead_sarah, lead_bob] \<and>
   toLowerCase (phone lead_sarah) = phone lead_sarah \<and>
   toLowerCase (phone lead_bob) = phone lead_bob \<and>
   filteredLeads (handleSetSearchQuery ''X12'' (useLeads [lead_sarah, lead_bob])) = [lead_bob] \<and>
   filter (passes_filter (handleSetSearchQuery ''X12'' (useLeads [lead_sarah, lead_bob])))
     (initialLeads (handleSetSearchQuery ''X12'' (useLeads [lead_sarah, lead_bob]))) = [lead_bob]"
proof -
  let ?s = "handleSetSearchQuery ''X12'' (useLeads [lead_sarah, lead_bob])"
  have leads: "initialLeads ?s = [lead_sarah, lead_bob]"
    by (simp add: handleSetSearchQuery_def useLeads_def)
  have sarah: "toLowerCase (phone lead_sarah) = phone lead_sarah"
    by code_simp
  have bob: "toLowerCase (phone lead_bob) = phone lead_bob"
    by code_simp
  have lower: "\<forall>x\<in>set (initialLeads ?s). toLowerCase (phone x) = phone x"
    using sarah bob by (simp add: leads)
  have kept: "filteredLeads ?s = [lead_bob]"
    by code_simp
  have "filter (passes_filter ?s) (initialLeads ?s) = [lead_bob]"
    using kept filteredLeads_is_filter [OF lower] by metis
  then show ?thesis
    using leads sarah bob kept by blast
qed

text \<open>
  C1 as stated fails: the search text \<open>X12\<close> is not a substring of Bob's phone
  \<open>555-0100 x12\<close> nor, lowercased, of his name, email or company, so the stated predicate
  rejects him; the code looks for \<open>x12\<close> in the phone and keeps him.
\<close>

theorem filteredLeads_as_stated_counterexample:
  "filteredLeads (handleSetSearchQuery ''X12'' (useLeads [lead_bob])) = [lead_bob] \<and>
   filter (passes_as_stated (handleSetSearchQuery ''X12'' (useLeads [lead_bob])))
     (initialLeads (handleSetSearchQuery ''X12'' (useLeads [lead_bob]))) = []"
  by code_simp

text \<open>
  C5, which the code breaks. The claim has the phone found by the search text as typed.
  \<open>EXT\<close> occurs in Amy's phone \<open>555 EXT 9\<close> as stored, yet \<open>setSearchQuery EXT\<close>
  filters her out: the callback lowercases the search text and leaves the phone as it
  is, so it looks for \<open>ext\<close>. No spelling of the text finds the upper-case letters of a
  phone (\<open>ext\<close> and \<open>Ext\<close> fail alike), while the name, lowercased on both sides, is
  found by \<open>AMY\<close>.
\<close>

theorem phone_upper_case_not_found:
  "searchQuery (handleSetSearchQuery ''EXT'' (useLeads [lead_amy])) = ''EXT'' \<and>
   phone lead_amy = ''555 '' @ ''EXT'' @ '' 9'' \<and>
   \<not> keepLead (handleSetSearchQuery ''EXT'' (useLeads [lead_amy])) lead_amy \<and>
   filteredLeads (handleSetSearchQuery ''EXT'' (useLeads [lead_amy])) = [] \<and>
   filteredLeads (handleSetSearchQuery ''ext'' (useLeads [lead_amy])) = [] \<and>
   filteredLeads (handleSetSearchQuery ''Ext'' (useLeads [lead_amy])) = [] \<and>
   filteredLeads (handleSetSearchQuery ''AMY'' (useLeads [lead_amy])) = [lead_amy]"
  by code_simp

subsection \<open>Sorting\<close>

lemma mset_insert_by: "mset (insert_by cmp x ys) = add_mset x (mset ys)"
  by (induction ys) simp_all

lemma mset_array_sort: "mset (array_sort cmp xs) = mset xs"
  by (induction xs) (simp_all add: mset_insert_by)

lemma set_insert_by: "set (insert_by cmp x ys) = insert x (set ys)"
  by (induction ys) auto

text \<open>
  Insertion does not disturb a class \<open>P\<close> of elements: an element outside the class
  leaves the subsequence of the class alone, an element of the class that exceeds no
  other member becomes its first.
\<close>

lemma filter_insert_by_out: "\<not> P x \<Longrightarrow> filter P (insert_by cmp x ys) = filter P ys"
  by (induction ys) simp_all

lemma filter_insert_by_in:
  assumes "P x" and "\<And>y. P y \<Longrightarrow> cmp x y \<le> 0"
  shows "filter P (insert_by cmp x ys) = x # filter P ys"
  using assms by (induction ys) auto

lemma filter_array_sort:
  assumes "\<And>x y. P x \<Longrightarrow> P y \<Longrightarrow> cmp x y \<le> 0"
  shows "filter P (array_sort cmp xs) = filter P xs"
proof (induction xs)
  case Nil
  show ?case by simp
next
  case (Cons x xs)
  show ?case
  proof (cases "P x")
    case True
    then have "filter P (insert_by cmp x (array_sort cmp xs)) = x # filter P (array_sort cmp xs)"
      using assms by (intro filter_insert_by_in) auto
    with True Cons show ?thesis by simp
  next
    case False
    with Cons show ?thesis by (simp add: filter_insert_by_out)
  qed
qed

lemma sorted_insert_by:
  assumes total: "\<And>x y. cmp x y \<le> 0 \<or> cmp y x \<le> 0"
    and trans: "\<And>x y z. cmp x y \<le> 0 \<Longrightarrow> cmp y z \<le> 0 \<Longrightarrow> cmp x z \<le> 0"
    and "sorted_wrt (\<lambda>a b. cmp a b \<le> 0) ys"
  shows "sorted_wrt (\<lambda>a b. cmp a b \<le> 0) (insert_by cmp x ys)"
  using assms(3)
proof (induction ys)
  case Nil
  show ?case by simp
next
  case (Cons y ys)
  show ?case
  proof (cases "cmp x y \<le> 0")
    case True
    then have "\<forall>z\<in>set ys. cmp x z \<le> 0"
      using Cons.prems trans by auto
    with True Cons.prems show ?thesis by simp
  next
    case False
    then have "cmp y x \<le> 0" using total [of x y] by simp
    with False Cons show ?thesis by (simp add: set_insert_by)
  qed
qed

lemma sorted_array_sort:
  assumes "\<And>x y. cmp x y \<le> 0 \<or> cmp y x \<le> 0"
    and "\<And>x y z. cmp x y \<le> 0 \<Longrightarrow> cmp y z \<le> 0 \<Longrightarrow> cmp x z \<le> 0"
  shows "sorted_wrt (\<lambda>a b. cmp a b \<le> 0) (array_sort cmp xs)"
  by (induction xs) (simp_all add: sorted_insert_by assms)

text \<open>The comparator of the hook is the order of the sort values, in the chosen direction.\<close>

lemma value_less_same:
  "\<not> value_less (sortValue f a) (sortValue f b) \<and> \<not> value_less (sortValue f b) (sortValue f a)
   \<longleftrightarrow> sortValue f a = sortValue f b"
  by (cases f) auto

lemma value_less_total:
  "\<not> value_less (sortValue f b) (sortValue f a) \<or> \<not> value_less (sortValue f a) (sortValue f b)"
  by (cases f) auto

lemma value_less_trans:
  "\<not> value_less (sortValue f b) (sortValue f a) \<Longrightarrow>
   \<not> value_less (sortValue f c) (sortValue f b) \<Longrightarrow>
   \<not> value_less (sortValue f c) (sortValue f a)"
  by (cases f) auto

lemma compareLeads_zero_iff:
  "compareLeads f d a b = 0 \<longleftrightarrow> sortValue f a = sortValue f b"
  using value_less_same [of f a b]
  by (auto simp: compareLeads_def Let_def)

lemma compareLeads_le_iff:
  "compareLeads f d a b \<le> 0 \<longleftrightarrow>
     (if d = Asc then \<not> value_less (sortValue f b) (sortValue f a)
      else \<not> value_less (sortValue f a) (sortValue f b))"
  by (cases f; cases d) (auto simp: compareLeads_def)

lemma compareLeads_same_value:
  "sortValue f x = sortValue f y \<Longrightarrow> compareLeads f d x y \<le> 0"
  using compareLeads_zero_iff [of f d x y] by simp

lemma compareLeads_same_class:
  "compareLeads f d a x = 0 \<Longrightarrow> compareLeads f d a y = 0 \<Longrightarrow> compareLeads f d x y \<le> 0"
  by (rule compareLeads_same_value) (simp add: compareLeads_zero_iff)

text \<open>
  The model of \<^verbatim>\<open>Array.prototype.sort\<close> does sort: in \<open>sortedLeads\<close> no lead is followed
  by one that the comparator puts strictly before it.
\<close>

lemma sortedLeads_in_order:
  "sorted_wrt (\<lambda>a b. compareLeads (sortField s) (sortDirection s) a b \<le> 0) (sortedLeads s)"
  unfolding sortedLeads_def
proof (rule sorted_array_sort)
  fix x y
  show "compareLeads (sortField s) (sortDirection s) x y \<le> 0 \<or>
        compareLeads (sortField s) (sortDirection s) y x \<le> 0"
    using value_less_total [of "sortField s" x y] value_less_total [of "sortField s" y x]
    by (simp add: compareLeads_le_iff)
next
  fix x y z
  assume "compareLeads (sortField s) (sortDirection s) x y \<le> 0"
    and "compareLeads (sortField s) (sortDirection s) y z \<le> 0"
  then show "compareLeads (sortField s) (sortDirection s) x z \<le> 0"
    using value_less_trans [of "sortField s" y x z] value_less_trans [of "sortField s" y z x]
    by (auto simp: compareLeads_le_iff split: if_splits)
qed

text \<open>Bob (score 50) before Amy (score 90): by name ascending and by score descending Amy
  comes first.\<close>

lemma sort_by_name_and_by_score:
  "sortedLeads (setSortField Name (setSortField Name (useLeads [lead_bob, lead_amy])))
     = [lead_amy, lead_bob] \<and>
   sortedLeads (setSortField Score (useLeads [lead_bob, lead_amy])) = [lead_amy, lead_bob]"
  by code_simp

text \<open>
  C3. The sort is stable: for every sort state and every lead \<open>a\<close>, the leads that the
  comparator considers equal to \<open>a\<close> form the same sequence in \<open>sortedLeads\<close> as in
  \<open>filteredLeads\<close>; in particular, under the field \<open>score\<close> and either direction, the
  leads of one score keep their relative order.
\<close>

theorem sortedLeads_stable:
  "filter (\<lambda>b. compareLeads (sortField s) (sortDirection s) a b = 0) (sortedLeads s) =
   filter (\<lambda>b. compareLeads (sortField s) (sortDirection s) a b = 0) (filteredLeads s) \<and>
   (sortField s = Score \<longrightarrow>
      filter (\<lambda>b. score b = k) (sortedLeads s) = filter (\<lambda>b. score b = k) (filteredLeads s))"
proof -
  let ?cmp = "compareLeads (sortField s) (sortDirection s)"
  have "filter (\<lambda>b. ?cmp a b = 0) (array_sort ?cmp (filteredLeads s)) =
        filter (\<lambda>b. ?cmp a b = 0) (filteredLeads s)"
    by (rule filter_array_sort) (simp add: compareLeads_same_class)
  moreover have "filter (\<lambda>b. score b = k) (array_sort ?cmp (filteredLeads s)) =
        filter (\<lambda>b. score b = k) (filteredLeads s)" if "sortField s = Score"
    by (rule filter_array_sort) (simp add: that compareLeads_same_value)
  ultimately show ?thesis
    by (simp add: sortedLeads_def)
qed

text \<open>
  Sarah (90), Bob (50), Amy (90) sorted by score, descending: Sarah stays in front of Amy.
\<close>

theorem sortedLeads_stable_witness:
  "sortField (setSortField Score (useLeads [lead_sarah, lead_bob, lead_amy])) = Score \<and>
   filter (\<lambda>b. score b = 90)
     (filteredLeads (setSortField Score (useLeads [lead_sarah, lead_bob, lead_amy])))
     = [lead_sarah, lead_amy] \<and>
   filter (\<lambda>b. score b = 90)
     (sortedLeads (setSortField Score (useLeads [lead_sarah, lead_bob, lead_amy])))
     = [lead_sarah, lead_amy]"
proof -
  let ?s = "setSortField Score (useLeads [lead_sarah, lead_bob, lead_amy])"
  have field: "sortField ?s = Score"
    by (simp add: setSortField_def handleSetSortField_def useLeads_def)
  have before: "filter (\<lambda>b. score b = 90) (filteredLeads ?s) = [lead_sarah, lead_amy]"
    by code_simp
  show ?thesis
    using field before sortedLeads_stable [of ?s lead_sarah 90] by simp
qed

text \<open>
  C4. For every lead collection, filter state and sort state, \<open>sortedLeads\<close> is a
  permutation of \<open>filteredLeads\<close>: the same leads, and so the same identifiers, with the
  same multiplicities.
\<close>

theorem sortedLeads_permutation:
  "mset (sortedLeads s) = mset (filteredLeads s) \<and>
   mset (map lead_id (sortedLeads s)) = mset (map lead_id (filteredLeads s))"
proof -
  have "mset (sortedLeads s) = mset (filteredLeads s)"
    by (simp add: sortedLeads_def mset_array_sort)
  then show ?thesis
    by (metis mset_map)
qed

subsection \<open>Pagination\<close>

lemma slice_page:
  assumes "0 \<le> start" and "0 \<le> n"
  shows "slice xs start (start + n) = take (nat n) (drop (nat start) xs)"
  using assms by (auto simp: slice_def Let_def min_def max_def)

lemma keepLead_setCurrentPage: "keepLead (setCurrentPage p s) = keepLead s"
  by (rule ext) (simp add: keepLead_def setCurrentPage_def)

lemma sortedLeads_setCurrentPage [simp]: "sortedLeads (setCurrentPage p s) = sortedLeads s"
  by (simp add: sortedLeads_def filteredLeads_def keepLead_setCurrentPage)
    (simp add: setCurrentPage_def)

lemma currentPage_setCurrentPage [simp]: "currentPage (setCurrentPage p s) = p"
  by (simp add: setCurrentPage_def)

lemma paginatedLeads_page:
  "paginatedLeads (setCurrentPage (int i + 1) s) = take 10 (drop (i * 10) (sortedLeads s))"
proof -
  have "slice (sortedLeads s) (int i * 10) (int i * 10 + 10) =
        take (nat 10) (drop (nat (int i * 10)) (sortedLeads s))"
    by (rule slice_page) simp_all
  moreover have "nat (int i * 10) = i * 10" by (simp add: nat_mult_distrib)
  ultimately show ?thesis
    by (simp add: paginatedLeads_def Let_def ITEMS_PER_PAGE_def)
qed

lemma concat_pages:
  "concat (map (\<lambda>i. take n (drop (i * n) xs)) [0..<k]) = take (k * n) xs"
proof (induction k)
  case 0
  show ?case by simp
next
  case (Suc k)
  have "take (Suc k * n) xs = take (k * n + n) xs"
    by (simp add: add.commute)
  also have "\<dots> = take (k * n) xs @ take n (drop (k * n) xs)"
    by (rule take_add)
  finally show ?case using Suc by simp
qed

lemma upto_from_one: "[1..int k] = map (\<lambda>i. int i + 1) [0..<k]"
proof (induction k)
  case 0
  show ?case by simp
next
  case (Suc k)
  have "[1..int (Suc k)] = [1..int (Suc k) - 1] @ [int (Suc k)]"
    by (rule upto_rec2) simp
  with Suc show ?case by simp
qed

text \<open>The ceiling of the quotient, in integer arithmetic.\<close>

lemma totalPages_div [code]: "totalPages s = int ((length (sortedLeads s) + 9) div 10)"
proof -
  have "\<lceil>real (length (sortedLeads s)) / real_of_int 10\<rceil> =
        - (- int (length (sortedLeads s)) div 10)"
    using ceiling_divide_eq_div [of "int (length (sortedLeads s))" 10] by simp
  also have "\<dots> = int ((length (sortedLeads s) + 9) div 10)"
    by (simp add: zdiv_int)
  finally show ?thesis
    by (simp add: totalPages_def ITEMS_PER_PAGE_def)
qed

text \<open>
  Of 25 leads there are 3 pages; the third holds the last 5 leads, the fourth is empty.
\<close>

lemma pages_of_25_leads:
  "totalPages (useLeads (numbered_leads 25)) = 3 \<and>
   map createdAt (paginatedLeads (setCurrentPage 3 (useLeads (numbered_leads 25))))
     = [4, 3, 2, 1, 0] \<and>
   paginatedLeads (setCurrentPage 4 (useLeads (numbered_leads 25))) = []"
  by code_simp

text \<open>
  C2. For every lead collection and every filter and sort state, \<open>totalPages\<close> is the
  ceiling of the length of \<open>sortedLeads\<close> divided by 10, hence 0 when \<open>sortedLeads\<close> is
  empty, and the pages 1 to \<open>totalPages\<close>, one after the other, are exactly
  \<open>sortedLeads\<close>.
\<close>

theorem pages_cover_sortedLeads:
  "ITEMS_PER_PAGE = 10 \<and>
   totalPages s = \<lceil>real (length (sortedLeads s)) / 10\<rceil> \<and>
   totalPages s = int ((length (sortedLeads s) + 9) div 10) \<and>
   (sortedLeads s = [] \<longrightarrow> totalPages s = 0) \<and>
   concat (map (\<lambda>p. paginatedLeads (setCurrentPage p s)) [1..totalPages s]) = sortedLeads s"
proof -
  let ?k = "(length (sortedLeads s) + 9) div 10"
  have "concat (map (\<lambda>p. paginatedLeads (setCurrentPage p s)) [1..int ?k]) =
        concat (map (\<lambda>i. take 10 (drop (i * 10) (sortedLeads s))) [0..<?k])"
    by (simp add: upto_from_one comp_def paginatedLeads_page)
  also have "\<dots> = take (?k * 10) (sortedLeads s)"
    by (rule concat_pages)
  also have "\<dots> = sortedLeads s"
    by (rule take_all) presburger
  finally have "concat (map (\<lambda>p. paginatedLeads (setCurrentPage p s)) [1..totalPages s]) =
      sortedLeads s"
    by (simp add: totalPages_div)
  moreover have "totalPages s = \<lceil>real (length (sortedLeads s)) / 10\<rceil>"
    by (simp add: totalPages_def ITEMS_PER_PAGE_def)
  moreover have "sortedLeads s = [] \<longrightarrow> totalPages s = 0"
    by (simp add: totalPages_div)
  ultimately show ?thesis
    using totalPages_div [of s] ITEMS_PER_PAGE_def by blast
qed

theorem pages_cover_sortedLeads_witness:
  "sortedLeads (useLeads []) = [] \<and> totalPages (useLeads []) = 0 \<and>
   totalPages (useLeads (numbered_leads 25)) = 3 \<and>
   concat (map (\<lambda>p. paginatedLeads (setCurrentPage p (useLeads (numbered_leads 25)))) [1..3])
     = sortedLeads (useLeads (numbered_leads 25))"
proof -
  have none: "sortedLeads (useLeads []) = []"
    by code_simp
  have three: "totalPages (useLeads (numbered_leads 25)) = 3"
    by code_simp
  have zero: "totalPages (useLeads []) = 0"
    using none pages_cover_sortedLeads [of "useLeads []"] by blast
  have "concat (map (\<lambda>p. paginatedLeads (setCurrentPage p (useLeads (numbered_leads 25))))
          [1..totalPages (useLeads (numbered_leads 25))])
        = sortedLeads (useLeads (numbered_leads 25))"
    using pages_cover_sortedLeads [of "useLeads (numbered_leads 25)"] by blast
  then have cover:
    "concat (map (\<lambda>p. paginatedLeads (setCurrentPage p (useLeads (numbered_leads 25)))) [1..3])
       = sortedLeads (useLeads (numbered_leads 25))"
    by (simp only: three)
  show ?thesis
    using none zero three cover by blast
qed

text \<open>
  C6. For every state and every page number \<open>p\<close> with \<open>(p - 1) * 10\<close> at least the
  length of \<open>sortedLeads\<close>, \<open>setCurrentPage p\<close> makes \<open>p\<close> the current page, unclamped,
  and \<open>paginatedLeads\<close> is empty. The action has no failing branch.
\<close>

theorem page_beyond_range_is_empty:
  assumes "int (length (sortedLeads s)) \<le> (p - 1) * ITEMS_PER_PAGE"
  shows "currentPage (setCurrentPage p s) = p \<and> paginatedLeads (setCurrentPage p s) = []"
proof -
  let ?start = "(p - 1) * ITEMS_PER_PAGE"
  have "0 \<le> ?start" using assms by linarith
  then have "slice (sortedLeads s) ?start (?start + 10) =
      take (nat 10) (drop (nat ?start) (sortedLeads s))"
    by (intro slice_page) simp_all
  moreover have "length (sortedLeads s) \<le> nat ?start" using assms by linarith
  ultimately have "slice (sortedLeads s) ?start (?start + 10) = []" by simp
  then show ?thesis
    by (simp add: paginatedLeads_def Let_def ITEMS_PER_PAGE_def)
qed

theorem page_beyond_range_is_empty_witness:
  "int (length (sortedLeads (useLeads [lead_sarah, lead_bob, lead_amy])))
     \<le> (2 - 1) * ITEMS_PER_PAGE \<and>
   currentPage (setCurrentPage 2 (useLeads [lead_sarah, lead_bob, lead_amy])) = 2 \<and>
   paginatedLeads (setCurrentPage 2 (useLeads [lead_sarah, lead_bob, lead_amy])) = []"
proof -
  have beyond: "int (length (sortedLeads (useLeads [lead_sarah, lead_bob, lead_amy])))
     \<le> (2 - 1) * ITEMS_PER_PAGE"
    by code_simp
  show ?thesis
    using beyond page_beyond_range_is_empty [OF beyond] by simp
qed

subsection \<open>Actions\<close>

lemma setSortField_same_field:
  "sortField s = f \<Longrightarrow>
   setSortField f s = s\<lparr> sortDirection := (if sortDirection s = Asc then Desc else Asc) \<rparr>"
  by (simp add: setSortField_def handleSetSortField_def)

lemma setSortField_other_field:
  "sortField s \<noteq> f \<Longrightarrow> setSortField f s = s\<lparr> sortField := f, sortDirection := Desc \<rparr>"
  by (simp add: setSortField_def handleSetSortField_def)

text \<open>
  Two calls in one event after a change of field both see the field of the render: from
  \<open>createdAt\<close> descending, \<open>setSortField name\<close> twice in one event leaves \<open>name\<close>
  descending, in two events \<open>name\<close> ascending.
\<close>

lemma setSortField_twice_in_one_event:
  "sortField (handleSetSortField CreatedAt Name (handleSetSortField CreatedAt Name (useLeads [])))
     = Name \<and>
   sortDirection (handleSetSortField CreatedAt Name (handleSetSortField CreatedAt Name (useLeads [])))
     = Desc \<and>
   sortDirection (setSortField Name (setSortField Name (useLeads []))) = Asc"
  by (simp add: setSortField_def handleSetSortField_def useLeads_def)

text \<open>
  C7. \<open>setSortField f\<close> with \<open>f\<close> the current field keeps the field and flips the
  direction, so that a second call, in a later event or in the same one, restores the
  direction; with another field it sets the field to \<open>f\<close> and the direction to
  descending. It never changes the current page.
\<close>

theorem setSortField_toggles_or_resets:
  "(sortField s = f \<longrightarrow>
      sortField (setSortField f s) = sortField s \<and>
      (sortDirection s = Asc \<longrightarrow> sortDirection (setSortField f s) = Desc) \<and>
      (sortDirection s = Desc \<longrightarrow> sortDirection (setSortField f s) = Asc) \<and>
      sortDirection (setSortField f (setSortField f s)) = sortDirection s \<and>
      sortDirection (handleSetSortField (sortField s) f (handleSetSortField (sortField s) f s))
        = sortDirection s) \<and>
   (sortField s \<noteq> f \<longrightarrow>
      sortField (setSortField f s) = f \<and>
      sortDirection (setSortField f s) = Desc) \<and>
   currentPage (setSortField f s) = currentPage s"
  by (cases "sortDirection s") (simp_all add: setSortField_def handleSetSortField_def)

theorem setSortField_toggles_or_resets_witness:
  "sortField (useLeads []) = CreatedAt \<and> sortDirection (useLeads []) = Desc \<and>
   sortField (setSortField CreatedAt (useLeads [])) = CreatedAt \<and>
   sortDirection (setSortField CreatedAt (useLeads [])) = Asc \<and>
   sortDirection (setSortField CreatedAt (setSortField CreatedAt (useLeads []))) = Desc \<and>
   sortDirection (setSortField CreatedAt
     (setSortField CreatedAt (setSortField CreatedAt (useLeads [])))) = Asc \<and>
   sortField (useLeads []) \<noteq> Name \<and>
   sortField (setSortField Name (useLeads [])) = Name \<and>
   sortDirection (setSortField Name (useLeads [])) = Desc \<and>
   currentPage (setSortField Name (useLeads [])) = 1"
proof -
  have init: "sortField (useLeads []) = CreatedAt" "sortDirection (useLeads []) = Desc"
    "currentPage (useLeads []) = 1"
    by (simp_all add: useLeads_def)
  have asc: "sortDirection (setSortField CreatedAt (useLeads [])) = Asc"
    using setSortField_toggles_or_resets [of "useLeads []" CreatedAt] init by simp
  show ?thesis
    using init asc
      setSortField_toggles_or_resets [of "useLeads []" CreatedAt]
      setSortField_toggles_or_resets [of "setSortField CreatedAt (useLeads [])" CreatedAt]
      setSortField_toggles_or_resets [of "useLeads []" Name]
    by simp
qed

text \<open>
  C8. After \<open>setSearchQuery\<close>, \<open>toggleSource\<close> or \<open>toggleTag\<close>, whatever the state and
  the argument, the current page is 1.
\<close>

theorem filter_actions_reset_page:
  "currentPage (handleSetSearchQuery q s) = 1 \<and>
   currentPage (toggleSource src s) = 1 \<and>
   currentPage (toggleTag t s) = 1"
  by (simp add: handleSetSearchQuery_def toggleSource_def toggleTag_def)

text \<open>
  C9. \<open>clearFilters\<close> empties the search text and both selections and sets the current
  page to 1; the sort field, the sort direction, the view mode and the lead collection
  stay as they were.
\<close>

theorem clearFilters_frame:
  "searchQuery (clearFilters s) = [] \<and>
   selectedSources (clearFilters s) = [] \<and>
   selectedTags (clearFilters s) = [] \<and>
   currentPage (clearFilters s) = 1 \<and>
   sortField (clearFilters s) = sortField s \<and>
   sortDirection (clearFilters s) = sortDirection s \<and>
   viewMode (clearFilters s) = viewMode s \<and>
   initialLeads (clearFilters s) = initialLeads s"
  by (simp add: clearFilters_def)

text \<open>
  C10. The hook starts, for every lead collection, with an empty search text, no source
  and no tag selected, hence with \<open>filteredLeads\<close> the whole collection, sorted by
  \<open>createdAt\<close> descending, on page 1.
\<close>

theorem useLeads_initial_state:
  "searchQuery (useLeads leads) = [] \<and>
   selectedSources (useLeads leads) = [] \<and>
   selectedTags (useLeads leads) = [] \<and>
   filteredLeads (useLeads leads) = leads \<and>
   sortField (useLeads leads) = CreatedAt \<and>
   sortDirection (useLeads leads) = Desc \<and>
   currentPage (useLeads leads) = 1"
  by (simp add: useLeads_def filteredLeads_def keepLead_def)

end
